theory Spec2Isabelle
  imports Main
begin

section \<open>Characters and strings\<close>

text \<open>
  Texts are HOL strings: a character is one of the 256 code points below \<open>0x100\<close>.
  On that range Python's \<^verbatim>\<open>\s\<close> and \<^verbatim>\<open>str.strip\<close> take the code points
  9 to 13, 28 to 32, 133 and 160 as white space, \<^verbatim>\<open>\d\<close> takes 48 to 57, and
  \<^verbatim>\<open>str.lower\<close> adds 32 to 65..90 and to 192..222 except 215.
\<close>

definition code :: "char \<Rightarrow> nat" where
  "code c = of_char c"

definition is_space :: "char \<Rightarrow> bool" where
  "is_space c =
     (let n = code c in (9 \<le> n \<and> n \<le> 13) \<or> (28 \<le> n \<and> n \<le> 32) \<or> n = 133 \<or> n = 160)"

definition is_digit :: "char \<Rightarrow> bool" where
  "is_digit c = (let n = code c in 48 \<le> n \<and> n \<le> 57)"

definition lower_char :: "char \<Rightarrow> char" where
  "lower_char c =
     (let n = code c in
      if (65 \<le> n \<and> n \<le> 90) \<or> (192 \<le> n \<and> n \<le> 222 \<and> n \<noteq> 215)
      then char_of (n + 32) else c)"

definition lower :: "string \<Rightarrow> string" where
  "lower s = map lower_char s"

definition strip :: "string \<Rightarrow> string" where
  "strip s = rev (dropWhile is_space (rev (dropWhile is_space s)))"

text \<open>\<open>startswith s k\<close> is \<^verbatim>\<open>s.startswith(k)\<close>, \<open>contains s k\<close> is \<^verbatim>\<open>k in s\<close>.\<close>

fun startswith :: "string \<Rightarrow> string \<Rightarrow> bool" where
  "startswith s [] = True"
| "startswith [] (k # ks) = False"
| "startswith (c # cs) (k # ks) = (c = k \<and> startswith cs ks)"

fun contains :: "string \<Rightarrow> string \<Rightarrow> bool" where
  "contains [] k = (k = [])"
| "contains (c # cs) k = (startswith (c # cs) k \<or> contains cs k)"

text \<open>
  \<^verbatim>\<open>list(set(xs))\<close> keeps one copy of each element, in an order the language leaves
  open. The model keeps the order of \<open>remdups\<close>; the theorems below speak of the
  elements only.
\<close>

definition list_set :: "string list \<Rightarrow> string list" where
  "list_set xs = remdups xs"

section \<open>Backtracking regular expressions\<close>

text \<open>
  The fragment of Python's \<^verbatim>\<open>re\<close> the program uses: character classes, literal
  text, concatenation, ordered alternation, greedy and lazy bounded repetition, and one
  capturing group. There are no anchors and no look-around, so a match depends on the
  text from its start position on only.
\<close>

datatype cclass = Chr char | Range char char | Digit | Space | Dot | NotChr char

fun in_class :: "cclass \<Rightarrow> char \<Rightarrow> bool" where
  "in_class (Chr k) c = (c = k)"
| "in_class (Range lo hi) c = (code lo \<le> code c \<and> code c \<le> code hi)"
| "in_class Digit c = is_digit c"
| "in_class Space c = is_space c"
| "in_class Dot c = (c \<noteq> CHR 0x0A)"
| "in_class (NotChr k) c = (c \<noteq> k)"

text \<open>
  \<open>Rep greedy lo hi r\<close> repeats \<open>r\<close> at least \<open>lo\<close> and, when \<open>hi = Some n\<close>, at most
  \<open>n\<close> times; \<open>Grp r\<close> is the capturing group.
\<close>

datatype regex =
    Cls cclass
  | Lit string
  | Cat regex regex
  | Alt regex regex
  | Rep bool nat "nat option" regex
  | Grp regex

fun rsize :: "regex \<Rightarrow> nat" where
  "rsize (Cls k) = 0"
| "rsize (Lit w) = 0"
| "rsize (Cat a b) = Suc (rsize a + rsize b)"
| "rsize (Alt a b) = Suc (rsize a + rsize b)"
| "rsize (Rep g lo hi a) = Suc (rsize a)"
| "rsize (Grp a) = Suc (rsize a)"

text \<open>
  A match state is the text captured by the group so far and the text still to read.
  \<open>matches r s\<close> lists the ways \<open>r\<close> matches at the start of \<open>s\<close> in the order the
  backtracking engine tries them, so its head is the match the engine reports.
  An iteration of a repetition that reads nothing is cut off; every repeated
  expression of the program reads at least one character.
\<close>

type_synonym mstate = "string option \<times> string"

definition later :: "string option \<Rightarrow> mstate \<Rightarrow> mstate" where
  "later g m = (case fst m of None \<Rightarrow> (g, snd m) | Some h \<Rightarrow> m)"

function matches :: "regex \<Rightarrow> string \<Rightarrow> mstate list" where
  "matches (Cls k) s = (case s of [] \<Rightarrow> [] | c # t \<Rightarrow> if in_class k c then [(None, t)] else [])"
| "matches (Lit w) s = (if startswith s w then [(None, drop (length w) s)] else [])"
| "matches (Cat a b) s =
     concat (map (\<lambda>m. map (later (fst m)) (matches b (snd m))) (matches a s))"
| "matches (Alt a b) s = matches a s @ matches b s"
| "matches (Grp a) s =
     map (\<lambda>m. (Some (take (length s - length (snd m)) s), snd m)) (matches a s)"
| "matches (Rep greedy lo hi a) s =
     (let stop = (if lo = 0 then [(None, s)] else []);
          more = (if hi = Some 0 then []
                  else concat (map (\<lambda>m. if length (snd m) < length s
                                          then map (later (fst m))
                                                 (matches (Rep greedy (lo - 1)
                                                    (map_option (\<lambda>n. n - 1) hi) a) (snd m))
                                          else [])
                                (matches a s)))
      in if greedy then more @ stop else stop @ more)"
  by pat_completeness auto
termination
  by (relation "measures [\<lambda>(r, s). rsize r, \<lambda>(r, s). length s]") auto

text \<open>\<^verbatim>\<open>re.search\<close>: the first start position, from the left, with a match.\<close>

fun search :: "regex \<Rightarrow> string \<Rightarrow> mstate option" where
  "search r [] = (case matches r [] of [] \<Rightarrow> None | m # _ \<Rightarrow> Some m)"
| "search r (c # t) = (case matches r (c # t) of [] \<Rightarrow> search r t | m # _ \<Rightarrow> Some m)"

definition group1 :: "mstate \<Rightarrow> string" where
  "group1 m = (case fst m of None \<Rightarrow> [] | Some g \<Rightarrow> g)"

text \<open>
  \<^verbatim>\<open>re.findall\<close> for a pattern with one group: the group's text of each match, the
  scan resuming where the last match ended. A match that reads nothing (none of the
  program's patterns has one) moves the scan on by one character.
\<close>

function findall :: "regex \<Rightarrow> string \<Rightarrow> string list" where
  "findall r s =
     (case search r s of
        None \<Rightarrow> []
      | Some m \<Rightarrow> group1 m #
          (if length (snd m) < length s then findall r (snd m)
           else (case s of [] \<Rightarrow> [] | _ # t \<Rightarrow> findall r t)))"
  by pat_completeness auto
termination
  by (relation "measure (\<lambda>(r, s). length s)") auto

text \<open>
  \<^verbatim>\<open>re.split\<close> for a pattern without groups: \<open>acc\<close> is the piece being read. Only
  a match that reads something splits (the program's separator starts with a comma).
\<close>

function re_split :: "regex \<Rightarrow> string \<Rightarrow> string \<Rightarrow> string list" where
  "re_split r acc s =
     (case s of
        [] \<Rightarrow> [acc]
      | c # t \<Rightarrow>
          (case matches r s of
             [] \<Rightarrow> re_split r (acc @ [c]) t
           | m # _ \<Rightarrow>
               if length (snd m) < length s then acc # re_split r [] (snd m)
               else re_split r (acc @ [c]) t))"
  by pat_completeness auto
termination
  by (relation "measure (\<lambda>(r, acc, s). length s)") auto

declare findall.simps [simp del] re_split.simps [simp del]

subsection \<open>Pattern syntax\<close>

definition rstar :: "regex \<Rightarrow> regex" where "rstar r = Rep True 0 None r"
definition rplus :: "regex \<Rightarrow> regex" where "rplus r = Rep True 1 None r"
definition ropt :: "regex \<Rightarrow> regex" where "ropt r = Rep True 0 (Some 1) r"
definition lazy_star :: "regex \<Rightarrow> regex" where "lazy_star r = Rep False 0 None r"
definition lazy_plus :: "regex \<Rightarrow> regex" where "lazy_plus r = Rep False 1 None r"

definition cats :: "regex list \<Rightarrow> regex" where
  "cats rs = foldr Cat (butlast rs) (last rs)"

definition alts :: "regex list \<Rightarrow> regex" where
  "alts rs = foldr Alt (butlast rs) (last rs)"

definition words :: "string list \<Rightarrow> regex" where
  "words ws = alts (map Lit ws)"

definition upper_word :: regex where
  \<comment> \<open>\<^verbatim>\<open>[A-Z][a-z]+\<close>\<close>
  "upper_word = Cat (Cls (Range CHR ''A'' CHR ''Z'')) (rplus (Cls (Range CHR ''a'' CHR ''z'')))"

definition number :: regex where
  \<comment> \<open>\<^verbatim>\<open>\d+(?:,\d+)*(?:\.\d+)?\<close>\<close>
  "number = cats
     [rplus (Cls Digit),
      rstar (Cat (Lit '','') (rplus (Cls Digit))),
      ropt (Cat (Lit ''.'') (rplus (Cls Digit)))]"

section \<open>Numeric fact extractor\<close>

definition death_pattern :: regex where
  \<comment> \<open>\<^verbatim>\<open>(\d+)\s*(?:people?|persons?|individuals?)?\s*(?:died|dead|killed|death|deaths)\<close>\<close>
  "death_pattern = cats
     [Grp (rplus (Cls Digit)),
      rstar (Cls Space),
      ropt (alts [Cat (Lit ''peopl'') (ropt (Lit ''e'')),
                  Cat (Lit ''person'') (ropt (Lit ''s'')),
                  Cat (Lit ''individual'') (ropt (Lit ''s''))]),
      rstar (Cls Space),
      words [''died'', ''dead'', ''killed'', ''death'', ''deaths'']]"

definition death_pattern2 :: regex where
  \<comment> \<open>\<^verbatim>\<open>(?:died|dead|killed|death toll|deaths).*?(\d+)\<close>\<close>
  "death_pattern2 = cats
     [words [''died'', ''dead'', ''killed'', ''death toll'', ''deaths''],
      lazy_star (Cls Dot),
      Grp (rplus (Cls Digit))]"

definition injured_pattern :: regex where
  \<comment> \<open>\<^verbatim>\<open>(\d+)\s*(?:people?|persons?)?\s*(?:injured|wounded|hurt)\<close>\<close>
  "injured_pattern = cats
     [Grp (rplus (Cls Digit)),
      rstar (Cls Space),
      ropt (alts [Cat (Lit ''peopl'') (ropt (Lit ''e'')),
                  Cat (Lit ''person'') (ropt (Lit ''s''))]),
      rstar (Cls Space),
      words [''injured'', ''wounded'', ''hurt'']]"

definition affected_pattern :: regex where
  \<comment> \<open>\<^verbatim>\<open>(\d+(?:,\d+)*(?:\.\d+)?)\s*(?:million|lakh|thousand|people?|persons?|families)?\s*(?:affected|stranded|marooned|displaced|impacted)\<close>\<close>
  "affected_pattern = cats
     [Grp number,
      rstar (Cls Space),
      ropt (alts [Lit ''million'', Lit ''lakh'', Lit ''thousand'',
                  Cat (Lit ''peopl'') (ropt (Lit ''e'')),
                  Cat (Lit ''person'') (ropt (Lit ''s'')),
                  Lit ''families'']),
      rstar (Cls Space),
      words [''affected'', ''stranded'', ''marooned'', ''displaced'', ''impacted'']]"

definition affected_pattern2 :: regex where
  \<comment> \<open>\<^verbatim>\<open>(?:affected|stranded|marooned|displaced).*?(\d+(?:,\d+)*(?:\.\d+)?)\s*(?:million|lakh|thousand|people?|families)?\<close>\<close>
  "affected_pattern2 = cats
     [words [''affected'', ''stranded'', ''marooned'', ''displaced''],
      lazy_star (Cls Dot),
      Grp number,
      rstar (Cls Space),
      ropt (alts [Lit ''million'', Lit ''lakh'', Lit ''thousand'',
                  Cat (Lit ''peopl'') (ropt (Lit ''e'')),
                  Lit ''families''])]"

record numbers =
  deaths :: "string list"
  injured :: "string list"
  affected :: "string list"

definition death_matches :: "string \<Rightarrow> string list" where
  "death_matches text =
     findall death_pattern (lower text) @ findall death_pattern2 (lower text)"

definition injured_matches :: "string \<Rightarrow> string list" where
  "injured_matches text = findall injured_pattern (lower text)"

definition affected_matches :: "string \<Rightarrow> string list" where
  "affected_matches text =
     findall affected_pattern (lower text) @ findall affected_pattern2 (lower text)"

definition extract_categorized_numbers :: "string \<Rightarrow> numbers" where
  "extract_categorized_numbers text =
     \<lparr>deaths = (if death_matches text \<noteq> [] then list_set (death_matches text)
                else [''0 or not mentioned'']),
      injured = (if injured_matches text \<noteq> [] then list_set (injured_matches text)
                 else [''not mentioned'']),
      affected = (if affected_matches text \<noteq> [] then list_set (affected_matches text)
                  else [''not mentioned''])\<rparr>"

section \<open>Regex location extractor\<close>

definition place_name :: regex where
  \<comment> \<open>\<^verbatim>\<open>([A-Z][a-z]+(?:\s+[A-Z][a-z]+)?)\<close>\<close>
  "place_name = Grp (Cat upper_word (ropt (Cat (rplus (Cls Space)) upper_word)))"

definition district_pattern :: regex where
  \<comment> \<open>\<^verbatim>\<open>([A-Z][a-z]+(?:\s+[A-Z][a-z]+)?)\s+(?:district|zila|zilla)\<close>\<close>
  "district_pattern = cats
     [place_name, rplus (Cls Space), words [''district'', ''zila'', ''zilla'']]"

definition upazila_pattern :: regex where
  \<comment> \<open>\<^verbatim>\<open>([A-Z][a-z]+(?:\s+[A-Z][a-z]+)?)\s+(?:upazila|upazilla|thana|sub-district)\<close>\<close>
  "upazila_pattern = cats
     [place_name, rplus (Cls Space),
      words [''upazila'', ''upazilla'', ''thana'', ''sub-district'']]"

definition name_list :: regex where
  \<comment> \<open>\<^verbatim>\<open>\s*(?:--|:)\s*([A-Z][^.]+?)(?:\.|,\s*(?:Nearly|Almost|About|\d))\<close>\<close>
  "name_list = cats
     [rstar (Cls Space),
      words [''--'', '':''],
      rstar (Cls Space),
      Grp (Cat (Cls (Range CHR ''A'' CHR ''Z'')) (lazy_plus (Cls (NotChr CHR ''.'')))),
      Alt (Lit ''.'')
          (cats [Lit '','', rstar (Cls Space),
                 alts [Lit ''Nearly'', Lit ''Almost'', Lit ''About'', Cls Digit]])]"

definition list_pattern :: regex where
  \<comment> \<open>\<^verbatim>\<open>upazilas?\s*(?:--|:)\s*([A-Z][^.]+?)(?:\.|,\s*(?:Nearly|Almost|About|\d))\<close>\<close>
  "list_pattern = cats [Lit ''upazila'', ropt (Lit ''s''), name_list]"

definition district_list_pattern :: regex where
  \<comment> \<open>\<^verbatim>\<open>districts?\s*(?:--|:)\s*([A-Z][^.]+?)(?:\.|,\s*(?:Nearly|Almost|About|\d))\<close>\<close>
  "district_list_pattern = cats [Lit ''district'', ropt (Lit ''s''), name_list]"

definition separator :: regex where
  \<comment> \<open>\<^verbatim>\<open>,\s*(?:and\s+)?\<close>\<close>
  "separator = cats
     [Lit '','', rstar (Cls Space), ropt (Cat (Lit ''and'') (rplus (Cls Space)))]"

definition places :: "string \<Rightarrow> string list" where
  \<comment> \<open>the body of the loop over the list matches: split, strip, drop the empty pieces\<close>
  "places m = map strip (filter (\<lambda>p. strip p \<noteq> []) (re_split separator [] m))"

record regex_locations =
  districts :: "string list"
  upazilas :: "string list"

record locations = regex_locations +
  uncertain_locations :: "string list"

definition regex_districts :: "string \<Rightarrow> string list" where
  "regex_districts text =
     findall district_pattern text
     @ concat (map places (findall district_list_pattern text))"

definition regex_upazilas :: "string \<Rightarrow> string list" where
  "regex_upazilas text =
     findall upazila_pattern text
     @ concat (map places (findall list_pattern text))"

definition extract_locations_with_regex :: "string \<Rightarrow> regex_locations" where
  "extract_locations_with_regex text =
     \<lparr>districts = list_set (regex_districts text),
      upazilas = list_set (regex_upazilas text)\<rparr>"

section \<open>Contextual location categorizer\<close>

text \<open>
  The recognizer's document: its tokens, each with the white space that follows it
  (nothing or one space), and its entity spans, which give token positions with
  \<open>ent_start < ent_end \<le> length (tokens d)\<close>. The text of a slice of tokens is their
  texts with the white space between them, without the white space after the last one.
  The window is \<^verbatim>\<open>doc[max(0, ent.start - 5):min(len(doc), ent.end + 5)]\<close>.
\<close>

record token =
  tok_text :: string
  whitespace :: string

record ent =
  ent_text :: string
  label :: string
  ent_start :: nat
  ent_end :: nat

record doc =
  tokens :: "token list"
  ents :: "ent list"

definition span_text :: "token list \<Rightarrow> string" where
  "span_text ts =
     (if ts = [] then []
      else concat (map (\<lambda>t. tok_text t @ whitespace t) (butlast ts)) @ tok_text (last ts))"

definition slice :: "'a list \<Rightarrow> nat \<Rightarrow> nat \<Rightarrow> 'a list" where
  "slice xs i j = take (j - i) (drop i xs)"

definition context_of :: "doc \<Rightarrow> ent \<Rightarrow> string" where
  "context_of d e =
     (let start_idx = nat (max 0 (int (ent_start e) - 5));
          end_idx = min (length (tokens d)) (ent_end e + 5)
      in lower (span_text (slice (tokens d) start_idx end_idx)))"

definition upazila_keywords :: "string list" where
  "upazila_keywords = [''upazila'', ''upazilla'', ''thana'', ''sub-district'']"

definition district_keywords :: "string list" where
  "district_keywords = [''district'', ''zila'', ''zilla'']"

definition first_gpe :: "doc \<Rightarrow> string \<Rightarrow> ent option" where
  \<comment> \<open>the inner loop runs to the first span with this text and label, then breaks\<close>
  "first_gpe d loc = find (\<lambda>e. ent_text e = loc \<and> label e = ''GPE'') (ents d)"

definition categorize_step :: "doc \<Rightarrow> locations \<Rightarrow> string \<Rightarrow> locations" where
  "categorize_step d acc loc =
     (case first_gpe d loc of
        None \<Rightarrow> acc\<lparr>uncertain_locations := uncertain_locations acc @ [loc]\<rparr>
      | Some e \<Rightarrow>
          if list_ex (contains (context_of d e)) upazila_keywords
          then acc\<lparr>upazilas := upazilas acc @ [loc]\<rparr>
          else if list_ex (contains (context_of d e)) district_keywords
          then acc\<lparr>districts := districts acc @ [loc]\<rparr>
          else acc\<lparr>uncertain_locations := uncertain_locations acc @ [loc]\<rparr>)"

definition categorize_locations_by_context :: "doc \<Rightarrow> string list \<Rightarrow> locations" where
  "categorize_locations_by_context d locs =
     foldl (categorize_step d) \<lparr>districts = [], upazilas = [], uncertain_locations = []\<rparr> locs"

section \<open>Location merger, event date resolver, orchestrator\<close>

definition merge_location_results :: "locations \<Rightarrow> regex_locations \<Rightarrow> locations" where
  "merge_location_results spacy_results regex_results =
     \<lparr>districts = list_set (districts spacy_results @ districts regex_results),
      upazilas = list_set (upazilas spacy_results @ upazilas regex_results),
      uncertain_locations = uncertain_locations spacy_results\<rparr>"

definition event_date_pattern :: regex where
  \<comment> \<open>\<^verbatim>\<open>(?:on|since|from|during)\s+([A-Z][a-z]+\s+\d{1,2}(?:,?\s+\d{4})?)\<close>\<close>
  "event_date_pattern = cats
     [words [''on'', ''since'', ''from'', ''during''],
      rplus (Cls Space),
      Grp (cats [upper_word, rplus (Cls Space), Rep True 1 (Some 2) (Cls Digit),
                 ropt (cats [ropt (Lit '',''), rplus (Cls Space),
                             Rep True 4 (Some 4) (Cls Digit)])])]"

definition extract_event_date :: "string list \<Rightarrow> string \<Rightarrow> string" where
  "extract_event_date dates text =
     (case findall event_date_pattern text of
        d # _ \<Rightarrow> d
      | [] \<Rightarrow> (case dates of d # _ \<Rightarrow> d @ '' (estimated)'' | [] \<Rightarrow> ''not clearly mentioned''))"

text \<open>The part of \<^verbatim>\<open>process_article\<close> that computes the location record.\<close>

definition gpe_locations :: "doc \<Rightarrow> string list" where
  "gpe_locations d = map ent_text (filter (\<lambda>e. label e = ''GPE'') (ents d))"

definition final_locations :: "doc \<Rightarrow> string \<Rightarrow> locations" where
  "final_locations d text =
     merge_location_results (categorize_locations_by_context d (gpe_locations d))
       (extract_locations_with_regex text)"

section \<open>Auxiliary definitions\<close>

text \<open>
  The tier the categorizer gives a name: it depends on the document and the name only,
  not on the position of the name in the list of locations.
\<close>

datatype tier = District | Upazila | Uncertain

definition tier_of :: "doc \<Rightarrow> string \<Rightarrow> tier" where
  "tier_of d loc =
     (case first_gpe d loc of
        None \<Rightarrow> Uncertain
      | Some e \<Rightarrow>
          if list_ex (contains (context_of d e)) upazila_keywords then Upazila
          else if list_ex (contains (context_of d e)) district_keywords then District
          else Uncertain)"

text \<open>
  Two recognizer documents: ``In Bogra district, Sadar upazila'' with the span
  ``Bogra'', and ``Dhaka and Dhaka'' with both spans ``Dhaka''.
\<close>

definition tie_doc :: doc where
  "tie_doc =
     \<lparr>tokens = [\<lparr>tok_text = ''In'', whitespace = '' ''\<rparr>,
                \<lparr>tok_text = ''Bogra'', whitespace = '' ''\<rparr>,
                \<lparr>tok_text = ''district'', whitespace = ''''\<rparr>,
                \<lparr>tok_text = '','', whitespace = '' ''\<rparr>,
                \<lparr>tok_text = ''Sadar'', whitespace = '' ''\<rparr>,
                \<lparr>tok_text = ''upazila'', whitespace = ''''\<rparr>],
      ents = [\<lparr>ent_text = ''Bogra'', label = ''GPE'', ent_start = 1, ent_end = 2\<rparr>]\<rparr>"

definition twice_doc :: doc where
  "twice_doc =
     \<lparr>tokens = [\<lparr>tok_text = ''Dhaka'', whitespace = '' ''\<rparr>,
                \<lparr>tok_text = ''and'', whitespace = '' ''\<rparr>,
                \<lparr>tok_text = ''Dhaka'', whitespace = ''''\<rparr>],
      ents = [\<lparr>ent_text = ''Dhaka'', label = ''GPE'', ent_start = 0, ent_end = 1\<rparr>,
              \<lparr>ent_text = ''Dhaka'', label = ''GPE'', ent_start = 2, ent_end = 3\<rparr>]\<rparr>"

definition quiet_text :: string where
  "quiet_text = ''The river is calm today''"

definition busy_text :: string where
  "busy_text = ''1,200 families stranded; death toll rose to 15. 3 persons hurt''"

text \<open>
  \<open>reads r\<close>: every match of \<open>r\<close> reads at least one character.
  \<open>bodies_read r\<close>: every repeated expression inside \<open>r\<close> does.
\<close>

fun reads :: "regex \<Rightarrow> bool" where
  "reads (Cls k) = True"
| "reads (Lit w) = (w \<noteq> [])"
| "reads (Cat a b) = (reads a \<or> reads b)"
| "reads (Alt a b) = (reads a \<and> reads b)"
| "reads (Rep g lo hi a) = (0 < lo \<and> reads a)"
| "reads (Grp a) = reads a"

fun bodies_read :: "regex \<Rightarrow> bool" where
  "bodies_read (Cls k) = True"
| "bodies_read (Lit w) = True"
| "bodies_read (Cat a b) = (bodies_read a \<and> bodies_read b)"
| "bodies_read (Alt a b) = (bodies_read a \<and> bodies_read b)"
| "bodies_read (Rep g lo hi a) = (reads a \<and> bodies_read a)"
| "bodies_read (Grp a) = bodies_read a"

section \<open>Properties\<close>

declare matches.simps(6) [simp del]

subsection \<open>The matcher\<close>

text \<open>
  What a match leaves is a suffix of the text it started on, so the group's text is the
  text read inside the group; a pattern that reads leaves a shorter text, so the scan of
  \<open>findall\<close> always resumes where the match ended.
\<close>

lemma startswith_append: "startswith s w \<Longrightarrow> \<exists>t. s = w @ t"
  by (induction s w rule: startswith.induct) auto

lemma snd_later [simp]: "snd (later g m) = snd m"
  by (simp add: later_def split: option.split)

lemma matches_suffix: "m \<in> set (matches r s) \<Longrightarrow> \<exists>pre. s = pre @ snd m"
proof (induction r s arbitrary: m rule: matches.induct)
  case (1 k s)
  then show ?case by (auto split: list.splits if_splits)
next
  case (2 w s)
  from "2.prems" have sw: "startswith s w" and m: "m = (None, drop (length w) s)"
    by (auto split: if_splits)
  from startswith_append [OF sw] obtain t where "s = w @ t" ..
  with m show ?case by simp
next
  case (3 a b s)
  from "3.prems" obtain ma mb where ma: "ma \<in> set (matches a s)"
    and mb: "mb \<in> set (matches b (snd ma))" and m: "m = later (fst ma) mb"
    by auto
  from "3.IH"(1) [OF ma] obtain p1 where p1: "s = p1 @ snd ma" by blast
  from "3.IH"(2) [OF ma mb] obtain p2 where p2: "snd ma = p2 @ snd mb" by blast
  from p1 p2 m have "s = (p1 @ p2) @ snd m" by simp
  then show ?case by blast
next
  case (4 a b s)
  from "4.prems" have "m \<in> set (matches a s) \<or> m \<in> set (matches b s)" by simp
  then show ?case using "4.IH" by blast
next
  case (5 a s)
  from "5.prems" obtain m' where m': "m' \<in> set (matches a s)" and "snd m = snd m'"
    by auto
  with "5.IH" [OF m'] show ?case by simp
next
  case (6 greedy lo hi a s)
  show ?case
  proof (cases "m = (None, s)")
    case True
    then show ?thesis by simp
  next
    case False
    from "6.prems" have "m \<in> set (matches (Rep greedy lo hi a) s)" .
    with False obtain ma mb where ma: "ma \<in> set (matches a s)"
      and len: "length (snd ma) < length s"
      and mb: "mb \<in> set (matches (Rep greedy (lo - 1) (map_option (\<lambda>n. n - 1) hi) a) (snd ma))"
      and m: "m = later (fst ma) mb" and hi: "hi \<noteq> Some 0"
      by (subst (asm) matches.simps(6)) (auto simp: Let_def split: if_splits)
    from "6.IH"(1) [OF refl hi ma] obtain p1 where p1: "s = p1 @ snd ma" by blast
    from "6.IH"(2) [OF refl hi ma len mb] obtain p2 where p2: "snd ma = p2 @ snd mb" by blast
    from p1 p2 m have "s = (p1 @ p2) @ snd m" by simp
    then show ?thesis by blast
  qed
qed

lemma matches_length: "m \<in> set (matches r s) \<Longrightarrow> length (snd m) \<le> length s"
  using matches_suffix [of m r s] by (metis le_add2 length_append)

lemma matches_reads: "reads r \<Longrightarrow> m \<in> set (matches r s) \<Longrightarrow> length (snd m) < length s"
proof (induction r s arbitrary: m rule: matches.induct)
  case (1 k s)
  then show ?case by (auto split: list.splits if_splits)
next
  case (2 w s)
  from "2.prems" have sw: "startswith s w" and m: "m = (None, drop (length w) s)" and w: "w \<noteq> []"
    by (auto split: if_splits)
  from startswith_append [OF sw] obtain t where t: "s = w @ t" ..
  from w have "0 < length w" by simp
  with t m show ?case by simp
next
  case (3 a b s)
  from "3.prems"(2) obtain ma mb where ma: "ma \<in> set (matches a s)"
    and mb: "mb \<in> set (matches b (snd ma))" and m: "m = later (fst ma) mb"
    by auto
  have l1: "length (snd ma) \<le> length s" by (rule matches_length [OF ma])
  have l2: "length (snd mb) \<le> length (snd ma)" by (rule matches_length [OF mb])
  from "3.prems"(1) have "reads a \<or> reads b" by simp
  then show ?case
  proof
    assume "reads a"
    from "3.IH"(1) [OF this ma] l2 m show ?thesis by simp
  next
    assume "reads b"
    from "3.IH"(2) [OF ma this mb] l1 m show ?thesis by simp
  qed
next
  case (4 a b s)
  from "4.prems" have ra: "reads a" and rb: "reads b"
    and "m \<in> set (matches a s) \<or> m \<in> set (matches b s)" by simp_all
  then show ?case using "4.IH"(1) [OF ra] "4.IH"(2) [OF rb] by blast
next
  case (5 a s)
  from "5.prems" obtain m' where ra: "reads a" and m': "m' \<in> set (matches a s)"
    and "snd m = snd m'"
    by auto
  with "5.IH" [OF ra m'] show ?case by simp
next
  case (6 greedy lo hi a s)
  from "6.prems"(1) have lo: "0 < lo" by simp
  from "6.prems"(2) have "m \<in> set (matches (Rep greedy lo hi a) s)" .
  with lo obtain ma mb where ma: "ma \<in> set (matches a s)"
    and len: "length (snd ma) < length s"
    and mb: "mb \<in> set (matches (Rep greedy (lo - 1) (map_option (\<lambda>n. n - 1) hi) a) (snd ma))"
    and m: "m = later (fst ma) mb"
    by (subst (asm) matches.simps(6)) (auto simp: Let_def split: if_splits)
  from matches_length [OF mb] len m show ?case by simp
qed

lemma search_suffix: "search r s = Some m \<Longrightarrow> length (snd m) \<le> length s"
proof (induction s)
  case Nil
  then have "m \<in> set (matches r [])" by (auto split: list.splits)
  from matches_length [OF this] show ?case .
next
  case (Cons c t)
  show ?case
  proof (cases "matches r (c # t)")
    case Nil
    with Cons show ?thesis by simp
  next
    case (Cons m' ms)
    with Cons.prems have "m \<in> set (matches r (c # t))" by simp
    from matches_length [OF this] show ?thesis .
  qed
qed

lemma search_reads: "reads r \<Longrightarrow> search r s = Some m \<Longrightarrow> length (snd m) < length s"
proof (induction s)
  case Nil
  then have "m \<in> set (matches r [])" by (auto split: list.splits)
  from matches_reads [OF Nil.prems(1) this] show ?case .
next
  case (Cons c t)
  show ?case
  proof (cases "matches r (c # t)")
    case Nil
    with Cons show ?thesis by fastforce
  next
    case (Cons m' ms)
    with Cons.prems have "m \<in> set (matches r (c # t))" by simp
    from matches_reads [OF Cons.prems(1) this] show ?thesis .
  qed
qed

lemma findall_reads:
  "reads r \<Longrightarrow>
   findall r s = (case search r s of None \<Rightarrow> [] | Some m \<Rightarrow> group1 m # findall r (snd m))"
proof (cases "search r s")
  case None
  then show ?thesis by (subst findall.simps) simp
next
  case (Some m)
  assume "reads r"
  from search_reads [OF this Some] Some show ?thesis
    by (subst findall.simps) simp
qed

lemma patterns_read:
  "reads death_pattern" "reads death_pattern2" "reads injured_pattern"
  "reads affected_pattern" "reads affected_pattern2" "reads district_pattern"
  "reads upazila_pattern" "reads list_pattern" "reads district_list_pattern"
  "reads separator" "reads event_date_pattern"
  by code_simp+

lemma patterns_bodies_read:
  "bodies_read death_pattern" "bodies_read death_pattern2" "bodies_read injured_pattern"
  "bodies_read affected_pattern" "bodies_read affected_pattern2"
  "bodies_read district_pattern" "bodies_read upazila_pattern" "bodies_read list_pattern"
  "bodies_read district_list_pattern" "bodies_read separator"
  "bodies_read event_date_pattern"
  by code_simp+

lemma re_split_reads:
  assumes "reads r"
  shows "re_split r acc (c # t) =
     (case matches r (c # t) of
        [] \<Rightarrow> re_split r (acc @ [c]) t
      | m # _ \<Rightarrow> acc # re_split r [] (snd m))"
proof (cases "matches r (c # t)")
  case Nil
  then show ?thesis by (subst re_split.simps) simp
next
  case (Cons m ms)
  then have "m \<in> set (matches r (c # t))" by simp
  from matches_reads [OF assms this] Cons show ?thesis
    by (subst re_split.simps) simp
qed

subsection \<open>Helper facts\<close>

lemma set_list_set: "set (list_set xs) = set xs"
  by (simp add: list_set_def)

lemma list_set_Nil: "(list_set xs = []) = (xs = [])"
  by (cases xs) (auto simp: list_set_def)

lemma categorize_step_tier:
  "categorize_step d acc loc =
     (case tier_of d loc of
        District \<Rightarrow> acc\<lparr>districts := districts acc @ [loc]\<rparr>
      | Upazila \<Rightarrow> acc\<lparr>upazilas := upazilas acc @ [loc]\<rparr>
      | Uncertain \<Rightarrow> acc\<lparr>uncertain_locations := uncertain_locations acc @ [loc]\<rparr>)"
  by (simp add: categorize_step_def tier_of_def split: option.split)

lemma foldl_categorize_step:
  "foldl (categorize_step d) acc locs =
     \<lparr>districts = districts acc @ filter (\<lambda>l. tier_of d l = District) locs,
      upazilas = upazilas acc @ filter (\<lambda>l. tier_of d l = Upazila) locs,
      uncertain_locations = uncertain_locations acc @ filter (\<lambda>l. tier_of d l = Uncertain) locs\<rparr>"
proof (induction locs arbitrary: acc)
  case Nil
  show ?case by simp
next
  case (Cons l locs)
  have "foldl (categorize_step d) acc (l # locs) =
        foldl (categorize_step d) (categorize_step d acc l) locs" by simp
  also note Cons.IH [of "categorize_step d acc l"]
  finally have unfolded: "foldl (categorize_step d) acc (l # locs) =
     \<lparr>districts = districts (categorize_step d acc l) @ filter (\<lambda>l. tier_of d l = District) locs,
      upazilas = upazilas (categorize_step d acc l) @ filter (\<lambda>l. tier_of d l = Upazila) locs,
      uncertain_locations = uncertain_locations (categorize_step d acc l)
        @ filter (\<lambda>l. tier_of d l = Uncertain) locs\<rparr>" .
  show ?case
    unfolding unfolded by (cases "tier_of d l") (simp_all add: categorize_step_tier)
qed

lemma categorize_filter:
  "categorize_locations_by_context d locs =
     \<lparr>districts = filter (\<lambda>l. tier_of d l = District) locs,
      upazilas = filter (\<lambda>l. tier_of d l = Upazila) locs,
      uncertain_locations = filter (\<lambda>l. tier_of d l = Uncertain) locs\<rparr>"
  by (simp add: categorize_locations_by_context_def foldl_categorize_step)

lemma search_None_iff: "(search r s = None) = (\<forall>k\<le>length s. matches r (drop k s) = [])"
proof (induction s)
  case Nil
  show ?case by (simp split: list.split)
next
  case (Cons c t)
  have "(\<forall>k\<le>length (c # t). matches r (drop k (c # t)) = []) =
        (matches r (c # t) = [] \<and> (\<forall>k\<le>length t. matches r (drop k t) = []))"
    (is "?L = ?R")
  proof
    assume l: ?L
    have "matches r (c # t) = []" using l [rule_format, of 0] by simp
    moreover have "\<forall>k\<le>length t. matches r (drop k t) = []"
      using l [rule_format, of "Suc k" for k] by simp
    ultimately show ?R by simp
  next
    assume r: ?R
    show ?L
    proof (intro allI impI)
      fix k assume "k \<le> length (c # t)"
      then show "matches r (drop k (c # t)) = []" using r by (cases k) simp_all
    qed
  qed
  then show ?case using Cons.IH by (simp split: list.split)
qed

lemma search_Some_iff:
  "(search r s = Some m) =
     (\<exists>k\<le>length s. (\<forall>j<k. matches r (drop j s) = []) \<and>
        matches r (drop k s) \<noteq> [] \<and> m = hd (matches r (drop k s)))"
proof (induction s)
  case Nil
  show ?case by (auto split: list.split)
next
  case (Cons c t)
  show ?case
  proof (cases "matches r (c # t)")
    case Nil
    have "(\<exists>k\<le>length (c # t). (\<forall>j<k. matches r (drop j (c # t)) = []) \<and>
            matches r (drop k (c # t)) \<noteq> [] \<and> m = hd (matches r (drop k (c # t)))) =
          (\<exists>k\<le>length t. (\<forall>j<k. matches r (drop j t) = []) \<and>
            matches r (drop k t) \<noteq> [] \<and> m = hd (matches r (drop k t)))"
      (is "?L = ?R")
    proof
      assume ?L
      then obtain k where k: "k \<le> length (c # t)" "\<forall>j<k. matches r (drop j (c # t)) = []"
        "matches r (drop k (c # t)) \<noteq> []" "m = hd (matches r (drop k (c # t)))" by blast
      from k(3) Nil obtain k' where k': "k = Suc k'" by (cases k) auto
      have "\<forall>j<k'. matches r (drop j t) = []"
      proof (intro allI impI)
        fix j assume "j < k'"
        then have "Suc j < k" using k' by simp
        from k(2) [rule_format, OF this] show "matches r (drop j t) = []" by simp
      qed
      with k k' show ?R by auto
    next
      assume ?R
      then obtain k where k: "k \<le> length t" "\<forall>j<k. matches r (drop j t) = []"
        "matches r (drop k t) \<noteq> []" "m = hd (matches r (drop k t))" by blast
      have "\<forall>j<Suc k. matches r (drop j (c # t)) = []"
      proof (intro allI impI)
        fix j assume "j < Suc k"
        then show "matches r (drop j (c # t)) = []" using k(2) Nil by (cases j) simp_all
      qed
      with k show ?L by (intro exI [of _ "Suc k"]) simp
    qed
    with Nil Cons.IH show ?thesis by simp
  next
    case (Cons m' ms)
    have "(\<exists>k\<le>length (c # t). (\<forall>j<k. matches r (drop j (c # t)) = []) \<and>
            matches r (drop k (c # t)) \<noteq> [] \<and> m = hd (matches r (drop k (c # t)))) = (m = m')"
      (is "?L = _")
    proof
      assume ?L
      then obtain k where k: "k \<le> length (c # t)" "\<forall>j<k. matches r (drop j (c # t)) = []"
        "matches r (drop k (c # t)) \<noteq> []" "m = hd (matches r (drop k (c # t)))" by blast
      have "k = 0"
      proof (rule ccontr)
        assume "k \<noteq> 0"
        then have "0 < k" by simp
        from k(2) [rule_format, OF this] Cons show False by simp
      qed
      with k(4) Cons show "m = m'" by simp
    next
      assume "m = m'"
      with Cons show ?L by (intro exI [of _ 0]) simp
    qed
    with Cons show ?thesis by auto
  qed
qed

subsection \<open>Contextual location categorizer\<close>

text \<open>
  Claim C1. Let the first place span with the name \<open>loc\<close> have a context window (five
  tokens either side, clamped to the document, lower-cased) that contains a
  sub-district keyword and a district keyword. Then the categorizer puts \<open>loc\<close>, when
  it is among the locations it is given, under upazilas, and under neither districts nor
  uncertain.
\<close>

theorem tie_break_sub_district:
  assumes "first_gpe d loc = Some e"
    and "list_ex (contains (context_of d e)) upazila_keywords"
    and "list_ex (contains (context_of d e)) district_keywords"
    and "loc \<in> set locs"
  shows "loc \<in> set (upazilas (categorize_locations_by_context d locs)) \<and>
         loc \<notin> set (districts (categorize_locations_by_context d locs)) \<and>
         loc \<notin> set (uncertain_locations (categorize_locations_by_context d locs))"
proof -
  have "tier_of d loc = Upazila"
    using assms(1,2) by (simp add: tier_of_def)
  then show ?thesis
    using assms(4) by (simp add: categorize_filter)
qed

theorem tie_break_sub_district_witness:
  "first_gpe tie_doc ''Bogra'' = Some (hd (ents tie_doc)) \<and>
   list_ex (contains (context_of tie_doc (hd (ents tie_doc)))) upazila_keywords \<and>
   list_ex (contains (context_of tie_doc (hd (ents tie_doc)))) district_keywords \<and>
   ''Bogra'' \<in> set (gpe_locations tie_doc) \<and>
   ''Bogra'' \<in> set (upazilas (categorize_locations_by_context tie_doc (gpe_locations tie_doc))) \<and>
   ''Bogra'' \<notin> set (districts (categorize_locations_by_context tie_doc (gpe_locations tie_doc))) \<and>
   ''Bogra'' \<notin> set (uncertain_locations
      (categorize_locations_by_context tie_doc (gpe_locations tie_doc)))"
proof -
  have h1: "first_gpe tie_doc ''Bogra'' = Some (hd (ents tie_doc))" by code_simp
  have h2: "list_ex (contains (context_of tie_doc (hd (ents tie_doc)))) upazila_keywords"
    by code_simp
  have h3: "list_ex (contains (context_of tie_doc (hd (ents tie_doc)))) district_keywords"
    by code_simp
  have h4: "''Bogra'' \<in> set (gpe_locations tie_doc)" by code_simp
  from tie_break_sub_district [OF h1 h2 h3 h4] h1 h2 h3 h4 show ?thesis by blast
qed

subsection \<open>Location merger\<close>

text \<open>
  Claim C2. For every text and every recognizer-path record, a name the regex extractor
  puts in its districts is in the merged districts, and a name it puts in its upazilas is
  in the merged upazilas.
\<close>

theorem merge_keeps_regex_names:
  "(n \<in> set (districts (extract_locations_with_regex text)) \<longrightarrow>
      n \<in> set (districts (merge_location_results sp (extract_locations_with_regex text)))) \<and>
   (n \<in> set (upazilas (extract_locations_with_regex text)) \<longrightarrow>
      n \<in> set (upazilas (merge_location_results sp (extract_locations_with_regex text))))"
  by (simp add: merge_location_results_def set_list_set)

theorem merge_keeps_regex_names_witness:
  "''Dhaka'' \<in> set (districts (extract_locations_with_regex ''Dhaka district and Dhaka upazila'')) \<and>
   ''Dhaka'' \<in> set (upazilas (extract_locations_with_regex ''Dhaka district and Dhaka upazila'')) \<and>
   ''Dhaka'' \<in> set (districts (merge_location_results
       \<lparr>districts = [], upazilas = [], uncertain_locations = []\<rparr>
       (extract_locations_with_regex ''Dhaka district and Dhaka upazila''))) \<and>
   ''Dhaka'' \<in> set (upazilas (merge_location_results
       \<lparr>districts = [], upazilas = [], uncertain_locations = []\<rparr>
       (extract_locations_with_regex ''Dhaka district and Dhaka upazila'')))"
proof -
  have h1: "''Dhaka'' \<in> set (districts (extract_locations_with_regex ''Dhaka district and Dhaka upazila''))"
    by code_simp
  have h2: "''Dhaka'' \<in> set (upazilas (extract_locations_with_regex ''Dhaka district and Dhaka upazila''))"
    by code_simp
  from merge_keeps_regex_names [of "''Dhaka''" "''Dhaka district and Dhaka upazila''"
      "\<lparr>districts = [], upazilas = [], uncertain_locations = []\<rparr>"] h1 h2
  show ?thesis by blast
qed

subsection \<open>One tier per name\<close>

text \<open>
  Claim C3, as stated, fails on the regex path: on ``Dhaka district, Dhaka upazila'' the
  regex extractor lists ``Dhaka'' under districts and under upazilas.
\<close>

theorem regex_name_in_both_tiers:
  "''Dhaka'' \<in> set (districts (extract_locations_with_regex ''Dhaka district, Dhaka upazila''))
             \<inter> set (upazilas (extract_locations_with_regex ''Dhaka district, Dhaka upazila''))"
  by code_simp

text \<open>
  Claim C3, amended. In the categorizer's result, for every document and every list of
  locations, no name is in two of districts, upazilas and uncertain. (The regex
  extractor's record has no uncertain field, and may hold a name in both of its tiers.)
\<close>

theorem categorizer_tiers_disjoint:
  "set (districts (categorize_locations_by_context d locs))
     \<inter> set (upazilas (categorize_locations_by_context d locs)) = {} \<and>
   set (districts (categorize_locations_by_context d locs))
     \<inter> set (uncertain_locations (categorize_locations_by_context d locs)) = {} \<and>
   set (upazilas (categorize_locations_by_context d locs))
     \<inter> set (uncertain_locations (categorize_locations_by_context d locs)) = {}"
  by (auto simp: categorize_filter)

text \<open>
  Claim C4. The merged uncertain list is the recognizer path's uncertain list, whatever
  the regex path's record is; that record has no uncertain field.
\<close>

theorem merge_uncertain_verbatim:
  "uncertain_locations (merge_location_results sp rx) = uncertain_locations sp"
  by (simp add: merge_location_results_def)

subsection \<open>Scenarios\<close>

text \<open>
  Claim C5. On the enumerated-list sentence the regex extractor's upazilas are exactly
  Sirajganj, Tangail and Bogra.
\<close>

theorem enumerated_upazila_list:
  "set (upazilas (extract_locations_with_regex
      ''the affected upazilas -- Sirajganj, Tangail, and Bogra. Nearly 500 families are marooned.''))
   = {''Sirajganj'', ''Tangail'', ''Bogra''}"
proof -
  have "upazilas (extract_locations_with_regex
      ''the affected upazilas -- Sirajganj, Tangail, and Bogra. Nearly 500 families are marooned.'')
    = [''Sirajganj'', ''Tangail'', ''Bogra'']"
    by code_simp
  then show ?thesis by simp
qed

text \<open>
  Claim C6, as stated, fails: on ``At least 12 people died and 40 were injured'' the
  injured list does not contain ``40'', since the injured pattern wants the keyword right
  after the number and an optional noun, and ``were'' stands between them.
\<close>

theorem injured_misses_were_injured:
  "''40'' \<notin> set (injured (extract_categorized_numbers
      ''At least 12 people died and 40 were injured''))"
  by code_simp

text \<open>
  Claim C6, amended. On that text the deaths list contains ``12'' and the injured list is
  the sentinel.
\<close>

theorem deaths_scenario:
  "''12'' \<in> set (deaths (extract_categorized_numbers
      ''At least 12 people died and 40 were injured'')) \<and>
   injured (extract_categorized_numbers ''At least 12 people died and 40 were injured'')
     = [''not mentioned'']"
  by code_simp

text \<open>
  Claim C7, as stated, fails: on ``Nearly 2.5 million people have been affected'' the
  affected list does not contain ``2.5'', since ``people have been'' stands between the
  unit word and the keyword.
\<close>

theorem affected_misses_have_been:
  "''2.5'' \<notin> set (affected (extract_categorized_numbers
      ''Nearly 2.5 million people have been affected''))"
  by code_simp

text \<open>
  Claim C7, amended. On that text the affected list is the sentinel.
\<close>

theorem affected_scenario:
  "affected (extract_categorized_numbers ''Nearly 2.5 million people have been affected'')
     = [''not mentioned'']"
  by code_simp

subsection \<open>Duplicates in the uncertain list\<close>

text \<open>
  Claim C10. The document ``Dhaka and Dhaka'' has two place spans with the same name, and
  the window of the first, ``dhaka and dhaka'', holds no administrative keyword. Its
  final uncertain list holds ``Dhaka'' twice, whatever the text given to the regex path;
  the merged districts and upazilas never hold a name twice.
\<close>

theorem uncertain_not_deduplicated:
  "gpe_locations twice_doc = [''Dhaka'', ''Dhaka''] \<and>
   first_gpe twice_doc ''Dhaka'' = Some (hd (ents twice_doc)) \<and>
   context_of twice_doc (hd (ents twice_doc)) = ''dhaka and dhaka'' \<and>
   uncertain_locations (final_locations twice_doc text) = [''Dhaka'', ''Dhaka''] \<and>
   distinct (districts (merge_location_results sp rx)) \<and>
   distinct (upazilas (merge_location_results sp rx))"
proof -
  have "gpe_locations twice_doc = [''Dhaka'', ''Dhaka'']"
    by code_simp
  moreover have "first_gpe twice_doc ''Dhaka'' = Some (hd (ents twice_doc))"
    by code_simp
  moreover have "context_of twice_doc (hd (ents twice_doc)) = ''dhaka and dhaka''"
    by code_simp
  moreover have
    "uncertain_locations (categorize_locations_by_context twice_doc (gpe_locations twice_doc))
      = [''Dhaka'', ''Dhaka'']"
    by code_simp
  ultimately show ?thesis
    by (simp add: final_locations_def merge_location_results_def list_set_def)
qed

subsection \<open>Numeric fact extractor\<close>

text \<open>
  Claim C8. For every text each of the three lists is non-empty; a category without a
  match is exactly its sentinel, and a category with matches holds exactly the matched
  values.
\<close>

theorem numbers_never_empty:
  "deaths (extract_categorized_numbers text) \<noteq> [] \<and>
   injured (extract_categorized_numbers text) \<noteq> [] \<and>
   affected (extract_categorized_numbers text) \<noteq> [] \<and>
   (death_matches text = [] \<longrightarrow>
      deaths (extract_categorized_numbers text) = [''0 or not mentioned'']) \<and>
   (injured_matches text = [] \<longrightarrow>
      injured (extract_categorized_numbers text) = [''not mentioned'']) \<and>
   (affected_matches text = [] \<longrightarrow>
      affected (extract_categorized_numbers text) = [''not mentioned'']) \<and>
   (death_matches text \<noteq> [] \<longrightarrow>
      set (deaths (extract_categorized_numbers text)) = set (death_matches text)) \<and>
   (injured_matches text \<noteq> [] \<longrightarrow>
      set (injured (extract_categorized_numbers text)) = set (injured_matches text)) \<and>
   (affected_matches text \<noteq> [] \<longrightarrow>
      set (affected (extract_categorized_numbers text)) = set (affected_matches text))"
  by (simp add: extract_categorized_numbers_def set_list_set list_set_Nil)

theorem numbers_never_empty_witness:
  "death_matches quiet_text = [] \<and> injured_matches quiet_text = [] \<and>
   affected_matches quiet_text = [] \<and>
   deaths (extract_categorized_numbers quiet_text) = [''0 or not mentioned''] \<and>
   injured (extract_categorized_numbers quiet_text) = [''not mentioned''] \<and>
   affected (extract_categorized_numbers quiet_text) = [''not mentioned''] \<and>
   death_matches busy_text = [''15''] \<and> injured_matches busy_text = [''3''] \<and>
   affected_matches busy_text = [''1,200'', ''15''] \<and>
   set (deaths (extract_categorized_numbers busy_text)) = {''15''} \<and>
   set (injured (extract_categorized_numbers busy_text)) = {''3''} \<and>
   set (affected (extract_categorized_numbers busy_text)) = {''1,200'', ''15''}"
proof -
  have q: "death_matches quiet_text = []" "injured_matches quiet_text = []"
    "affected_matches quiet_text = []"
    by code_simp+
  have b: "death_matches busy_text = [''15'']" "injured_matches busy_text = [''3'']"
    "affected_matches busy_text = [''1,200'', ''15'']"
    by code_simp+
  from numbers_never_empty [of quiet_text] numbers_never_empty [of busy_text] q b
  show ?thesis by simp
qed

subsection \<open>Event date resolver\<close>

text \<open>
  Claim C9. When the contextual pattern matches somewhere in the text, the resolver
  returns the date of the first match from the left; when it matches nowhere and there are
  recognizer dates, the first of them followed by \<open>'' (estimated)''\<close>; when it matches
  nowhere and there is none, \<open>''not clearly mentioned''\<close>.
\<close>

theorem event_date_resolution:
  "(search event_date_pattern text = Some m \<longrightarrow>
      extract_event_date dates text = group1 m) \<and>
   (search event_date_pattern text = None \<and> dates \<noteq> [] \<longrightarrow>
      extract_event_date dates text = hd dates @ '' (estimated)'') \<and>
   (search event_date_pattern text = None \<and> dates = [] \<longrightarrow>
      extract_event_date dates text = ''not clearly mentioned'')"
  unfolding extract_event_date_def
  by (subst findall.simps, subst findall.simps, subst findall.simps)
     (auto split: list.splits)

theorem event_date_resolution_witness:
  "search event_date_pattern ''Floods began on August 21, 2024 in London March 5''
     = Some (Some ''August 21, 2024'', '' in London March 5'') \<and>
   extract_event_date [''Monday''] ''Floods began on August 21, 2024 in London March 5''
     = ''August 21, 2024'' \<and>
   search event_date_pattern ''Floods began in march'' = None \<and>
   extract_event_date [''Monday'', ''2024''] ''Floods began in march'' = ''Monday (estimated)'' \<and>
   extract_event_date [] ''Floods began in march'' = ''not clearly mentioned''"
proof -
  have s1: "search event_date_pattern ''Floods began on August 21, 2024 in London March 5''
     = Some (Some ''August 21, 2024'', '' in London March 5'')"
    by code_simp
  have s2: "search event_date_pattern ''Floods began in march'' = None"
    by code_simp
  from s1 s2
    event_date_resolution [of "''Floods began on August 21, 2024 in London March 5''"
      "(Some ''August 21, 2024'', '' in London March 5'')" "[''Monday'']"]
    event_date_resolution [of "''Floods began in march''" _ "[''Monday'', ''2024'']"]
    event_date_resolution [of "''Floods began in march''" _ "[]"]
  show ?thesis by (simp add: group1_def)
qed

end
